theory Spec2Isabelle
  imports Main
begin

section \<open>The rate limiter of \<^verbatim>\<open>src/services/manbo-service.ts\<close>\<close>

text \<open>
  The service keeps one \<^verbatim>\<open>ManboRateLimiter\<close> object. Its methods read the wall clock
  with \<^verbatim>\<open>Date.now()\<close>; here the value read is the argument \<open>now\<close> of each operation
  (milliseconds, an integer, and nothing forces two successive readings to be ordered).
  The limit comes from the configuration field \<^verbatim>\<open>manboRateLimit\<close>, which the
  specification types as an integer; counters start at 1 and are only incremented, so
  \<open>int\<close> models them. Every method takes the limiter and returns its result together with
  the limiter it leaves behind.
\<close>

subsection \<open>Data\<close>

record RateLimitEntry =
  count :: int
  windowStart :: int

record ManboRateLimiter =
  requests :: "string \<rightharpoonup> RateLimitEntry"

text \<open>The field \<^verbatim>\<open>private windowSize = 60000\<close> is initialised once and never assigned.\<close>

definition windowSize :: int where
  "windowSize = 60000"

text \<open>\<^verbatim>\<open>new ManboRateLimiter()\<close>: an empty \<^verbatim>\<open>Map\<close>.\<close>

definition new_ManboRateLimiter :: ManboRateLimiter where
  "new_ManboRateLimiter = \<lparr>requests = Map.empty\<rparr>"

subsection \<open>Methods\<close>

text \<open>
  \<^verbatim>\<open>check(key, limit)\<close>. The entry read from the map is the object stored there, so
  \<^verbatim>\<open>entry.count++\<close> changes the stored entry; \<^verbatim>\<open>requests.set\<close> stores a new object.
\<close>

definition check :: "ManboRateLimiter \<Rightarrow> string \<Rightarrow> int \<Rightarrow> int \<Rightarrow> bool \<times> ManboRateLimiter" where
  "check s key limit now =
     (if limit = - 1 then (True, s)
      else if limit = 0 then (False, s)
      else
        (case requests s key of
           None \<Rightarrow>
             (True, s\<lparr>requests := (requests s)(key \<mapsto> \<lparr>count = 1, windowStart = now\<rparr>)\<rparr>)
         | Some entry \<Rightarrow>
             if now - windowStart entry \<ge> windowSize then
               (True, s\<lparr>requests := (requests s)(key \<mapsto> \<lparr>count = 1, windowStart = now\<rparr>)\<rparr>)
             else if count entry \<ge> limit then (False, s)
             else
               (True, s\<lparr>requests := (requests s)(key \<mapsto> entry\<lparr>count := count entry + 1\<rparr>)\<rparr>)))"

text \<open>\<^verbatim>\<open>getRemaining(key, limit)\<close>: no statement of its body writes to the map or to an entry.\<close>

definition getRemaining :: "ManboRateLimiter \<Rightarrow> string \<Rightarrow> int \<Rightarrow> int \<Rightarrow> int \<times> ManboRateLimiter" where
  "getRemaining s key limit now =
     (if limit = - 1 then (- 1, s)
      else if limit = 0 then (0, s)
      else
        (case requests s key of
           None \<Rightarrow> (limit, s)
         | Some entry \<Rightarrow>
             if now - windowStart entry \<ge> windowSize then (limit, s)
             else (max 0 (limit - count entry), s)))"

text \<open>\<^verbatim>\<open>reset(key)\<close> deletes the key; \<^verbatim>\<open>clear()\<close> empties the map. Both return nothing.\<close>

definition reset :: "ManboRateLimiter \<Rightarrow> string \<Rightarrow> ManboRateLimiter" where
  "reset s key = s\<lparr>requests := (requests s)(key := None)\<rparr>"

definition clear :: "ManboRateLimiter \<Rightarrow> ManboRateLimiter" where
  "clear s = s\<lparr>requests := Map.empty\<rparr>"

subsection \<open>Sequences of calls\<close>

text \<open>
  Repeated calls of \<open>check\<close> on one key with one limit, one clock reading per call: the
  results in call order and the limiter after the last call.
\<close>

fun check_times :: "ManboRateLimiter \<Rightarrow> string \<Rightarrow> int \<Rightarrow> int list \<Rightarrow> bool list \<times> ManboRateLimiter" where
  "check_times s key limit [] = ([], s)"
| "check_times s key limit (now # ts) =
     (let (r, s') = check s key limit now;
          (rs, s'') = check_times s' key limit ts
      in (r # rs, s''))"

text \<open>Repeated readings of \<open>getRemaining\<close> on one key with one limit.\<close>

fun getRemaining_times :: "ManboRateLimiter \<Rightarrow> string \<Rightarrow> int \<Rightarrow> int list \<Rightarrow> int list \<times> ManboRateLimiter" where
  "getRemaining_times s key limit [] = ([], s)"
| "getRemaining_times s key limit (now # ts) =
     (let (r, s') = getRemaining s key limit now;
          (rs, s'') = getRemaining_times s' key limit ts
      in (r # rs, s''))"

text \<open>
  A call of one of the four public methods, with its arguments and, for the two methods
  that read the clock, the value read.
\<close>

datatype call =
    Check string int int
  | GetRemaining string int int
  | Reset string
  | Clear

fun call_step :: "ManboRateLimiter \<Rightarrow> call \<Rightarrow> ManboRateLimiter" where
  "call_step s (Check key limit now) = snd (check s key limit now)"
| "call_step s (GetRemaining key limit now) = snd (getRemaining s key limit now)"
| "call_step s (Reset key) = reset s key"
| "call_step s Clear = clear s"

fun run :: "ManboRateLimiter \<Rightarrow> call list \<Rightarrow> ManboRateLimiter" where
  "run s [] = s"
| "run s (c # cs) = run (call_step s c) cs"

fun is_GetRemaining :: "call \<Rightarrow> bool" where
  "is_GetRemaining (GetRemaining key limit now) = True"
| "is_GetRemaining c = False"

subsection \<open>The exported functions\<close>

text \<open>
  \<^verbatim>\<open>`${groupId}`\<close> prints a number. For an integer below \<open>10^21\<close> in absolute value
  (every group number is) that is its decimal expansion, with a minus sign when negative.
\<close>

fun decimal :: "nat \<Rightarrow> string" where
  "decimal n =
     (if n < 10 then [''0123456789'' ! n]
      else decimal (n div 10) @ [''0123456789'' ! (n mod 10)])"

definition Number_toString :: "int \<Rightarrow> string" where
  "Number_toString n = (if n < 0 then CHR ''-'' # decimal (nat (- n)) else decimal (nat n))"

text \<open>
  The expression \<^verbatim>\<open>groupId ? `group:${groupId}` : 'global'\<close>, which the three exported
  functions assign to \<^verbatim>\<open>rateLimitKey\<close>. The parameter is \<^verbatim>\<open>groupId?: number\<close>:
  \<open>None\<close> is \<^verbatim>\<open>undefined\<close>; of the integers only 0 is falsy (the other falsy
  number, NaN, is no group number and has no counterpart in \<open>int\<close>).
\<close>

definition rateLimitKey :: "int option \<Rightarrow> string" where
  "rateLimitKey groupId =
     (case groupId of
        None \<Rightarrow> ''global''
      | Some g \<Rightarrow> if g \<noteq> 0 then ''group:'' @ Number_toString g else ''global'')"

text \<open>
  \<^verbatim>\<open>config.manboRateLimit ?? -1\<close>, where \<open>None\<close> is a field that is
  \<^verbatim>\<open>undefined\<close> or \<^verbatim>\<open>null\<close>.
\<close>

definition rateLimit_of :: "int option \<Rightarrow> int" where
  "rateLimit_of manboRateLimit = (case manboRateLimit of None \<Rightarrow> - 1 | Some l \<Rightarrow> l)"

definition getRateLimitRemaining ::
  "ManboRateLimiter \<Rightarrow> int option \<Rightarrow> int option \<Rightarrow> int \<Rightarrow> int \<times> ManboRateLimiter" where
  "getRateLimitRemaining s manboRateLimit groupId now =
     getRemaining s (rateLimitKey groupId) (rateLimit_of manboRateLimit) now"

definition resetRateLimit :: "ManboRateLimiter \<Rightarrow> int option \<Rightarrow> ManboRateLimiter" where
  "resetRateLimit s groupId = reset s (rateLimitKey groupId)"

definition clearAllRateLimits :: "ManboRateLimiter \<Rightarrow> ManboRateLimiter" where
  "clearAllRateLimits s = clear s"

text \<open>
  \<^verbatim>\<open>generateManboVoice\<close> up to the request it sends: \<open>apiUrl\<close> is the local constant of
  that name (\<^verbatim>\<open>config.manboApiUrl?.trim()\<close>, \<open>None\<close> when the field is undefined), and
  the outcome says whether the function returned the missing-address failure, returned the
  too-frequent failure, or went on to fetch the address.
\<close>

datatype gate = ApiUrlMissing | TooFrequent | Fetch string

definition generateManboVoice_gate ::
  "ManboRateLimiter \<Rightarrow> string option \<Rightarrow> int option \<Rightarrow> int option \<Rightarrow> int \<Rightarrow> gate \<times> ManboRateLimiter" where
  "generateManboVoice_gate s apiUrl manboRateLimit groupId now =
     (case apiUrl of
        None \<Rightarrow> (ApiUrlMissing, s)
      | Some url \<Rightarrow>
          if url = [] then (ApiUrlMissing, s)
          else
            (let (allowed, s') = check s (rateLimitKey groupId) (rateLimit_of manboRateLimit) now
             in if \<not> allowed then (TooFrequent, s') else (Fetch url, s')))"

subsection \<open>The invariant of the entries\<close>

definition counts_positive :: "ManboRateLimiter \<Rightarrow> bool" where
  "counts_positive s = (\<forall>k e. requests s k = Some e \<longrightarrow> 1 \<le> count e)"

section \<open>Properties\<close>

lemma check_fresh:
  "limit \<noteq> - 1 \<Longrightarrow> limit \<noteq> 0 \<Longrightarrow> requests s key = None \<Longrightarrow>
   check s key limit now =
     (True, s\<lparr>requests := (requests s)(key \<mapsto> \<lparr>count = 1, windowStart = now\<rparr>)\<rparr>)"
  by (simp add: check_def)

lemma check_expired:
  "limit \<noteq> - 1 \<Longrightarrow> limit \<noteq> 0 \<Longrightarrow> requests s key = Some e \<Longrightarrow>
   now - windowStart e \<ge> windowSize \<Longrightarrow>
   check s key limit now =
     (True, s\<lparr>requests := (requests s)(key \<mapsto> \<lparr>count = 1, windowStart = now\<rparr>)\<rparr>)"
  by (simp add: check_def)

lemma check_open_below:
  "limit \<noteq> - 1 \<Longrightarrow> limit \<noteq> 0 \<Longrightarrow> requests s key = Some e \<Longrightarrow>
   now - windowStart e < windowSize \<Longrightarrow> count e < limit \<Longrightarrow>
   check s key limit now =
     (True, s\<lparr>requests := (requests s)(key \<mapsto> e\<lparr>count := count e + 1\<rparr>)\<rparr>)"
  by (simp add: check_def)

lemma check_open_exhausted:
  "limit \<noteq> - 1 \<Longrightarrow> limit \<noteq> 0 \<Longrightarrow> requests s key = Some e \<Longrightarrow>
   now - windowStart e < windowSize \<Longrightarrow> limit \<le> count e \<Longrightarrow>
   check s key limit now = (False, s)"
  by (simp add: check_def)

lemma getRemaining_open:
  "limit \<noteq> - 1 \<Longrightarrow> limit \<noteq> 0 \<Longrightarrow> requests s key = Some e \<Longrightarrow>
   now - windowStart e < windowSize \<Longrightarrow>
   getRemaining s key limit now = (max 0 (limit - count e), s)"
  by (simp add: getRemaining_def)

text \<open>
  C1. A key \<open>k\<close> without entry, limit 3, four calls of \<open>check\<close> at clock readings
  \<open>t1, t2, t3, t4\<close>, and \<open>getRemaining\<close> read after the first, second, third and fourth
  call (at \<open>g1, g2, g3, g4\<close>), every reading less than 60000 ms after \<open>t1\<close>, the reading
  that opened the window: the four calls return true, true, true, false, and the remaining
  budget reads 2, 1, 0, 0.
\<close>

theorem C1_three_then_denied:
  assumes fresh: "requests s k = None"
    and win: "t2 - t1 < 60000" "t3 - t1 < 60000" "t4 - t1 < 60000"
      "g1 - t1 < 60000" "g2 - t1 < 60000" "g3 - t1 < 60000" "g4 - t1 < 60000"
  shows "fst (check_times s k 3 [t1, t2, t3, t4]) = [True, True, True, False]
       \<and> fst (getRemaining (snd (check_times s k 3 [t1])) k 3 g1) = 2
       \<and> fst (getRemaining (snd (check_times s k 3 [t1, t2])) k 3 g2) = 1
       \<and> fst (getRemaining (snd (check_times s k 3 [t1, t2, t3])) k 3 g3) = 0
       \<and> fst (getRemaining (snd (check_times s k 3 [t1, t2, t3, t4])) k 3 g4) = 0"
proof -
  define E where "E n = s\<lparr>requests := (requests s)(k \<mapsto> \<lparr>count = n, windowStart = t1\<rparr>)\<rparr>" for n
  have e: "requests (E n) k = Some \<lparr>count = n, windowStart = t1\<rparr>" for n
    by (simp add: E_def)
  have upd: "(E n)\<lparr>requests := (requests (E n))(k \<mapsto> \<lparr>count = m, windowStart = t1\<rparr>)\<rparr> = E m" for n m
    by (simp add: E_def)
  have c1: "check s k 3 t1 = (True, E 1)"
    using fresh by (simp add: check_fresh E_def)
  have c2: "check (E 1) k 3 t2 = (True, E 2)"
    using win(1) check_open_below [OF _ _ e, of 3 t2 1] by (simp add: windowSize_def upd)
  have c3: "check (E 2) k 3 t3 = (True, E 3)"
    using win(2) check_open_below [OF _ _ e, of 3 t3 2] by (simp add: windowSize_def upd)
  have c4: "check (E 3) k 3 t4 = (False, E 3)"
    using win(3) check_open_exhausted [OF _ _ e, of 3 t4 3] by (simp add: windowSize_def)
  have r1: "fst (getRemaining (E 1) k 3 g1) = 2"
    using win(4) getRemaining_open [OF _ _ e, of 3 g1 1] by (simp add: windowSize_def)
  have r2: "fst (getRemaining (E 2) k 3 g2) = 1"
    using win(5) getRemaining_open [OF _ _ e, of 3 g2 2] by (simp add: windowSize_def)
  have r3: "fst (getRemaining (E 3) k 3 g3) = 0"
    using win(6) getRemaining_open [OF _ _ e, of 3 g3 3] by (simp add: windowSize_def)
  have r4: "fst (getRemaining (E 3) k 3 g4) = 0"
    using win(7) getRemaining_open [OF _ _ e, of 3 g4 3] by (simp add: windowSize_def)
  show ?thesis
    by (simp add: c1 c2 c3 c4 r1 r2 r3 r4)
qed

theorem C1_three_then_denied_witness:
  "requests new_ManboRateLimiter ''global'' = None
   \<and> fst (check_times new_ManboRateLimiter ''global'' 3 [1000, 2000, 3000, 60999])
       = [True, True, True, False]
   \<and> fst (getRemaining (snd (check_times new_ManboRateLimiter ''global'' 3 [1000])) ''global'' 3 1500) = 2
   \<and> fst (getRemaining (snd (check_times new_ManboRateLimiter ''global'' 3 [1000, 2000])) ''global'' 3 2500) = 1
   \<and> fst (getRemaining (snd (check_times new_ManboRateLimiter ''global'' 3 [1000, 2000, 3000])) ''global'' 3 3500) = 0
   \<and> fst (getRemaining (snd (check_times new_ManboRateLimiter ''global'' 3 [1000, 2000, 3000, 60999])) ''global'' 3 60999) = 0"
  using C1_three_then_denied [of new_ManboRateLimiter "''global''" 2000 1000 3000 60999 1500 2500 3500 60999]
  by (simp add: new_ManboRateLimiter_def)

subsection \<open>Which calls change the entry\<close>

text \<open>
  C2, as stated: every call of \<open>check\<close> with a limit other than \<open>-1\<close> and 0 changes or
  creates the entry of its key, also a call that returns false. It fails on the exhausted
  path: after one accepted call with limit 1, a second call 1000 ms later returns false
  and the limiter, with the entry of the key, is what it was.
\<close>

theorem C2_denied_call_leaves_entry:
  "(1::int) \<noteq> - 1 \<and> (1::int) \<noteq> 0
   \<and> requests (snd (check new_ManboRateLimiter ''global'' 1 0)) ''global''
       = Some \<lparr>count = 1, windowStart = 0\<rparr>
   \<and> fst (check (snd (check new_ManboRateLimiter ''global'' 1 0)) ''global'' 1 1000) = False
   \<and> requests (snd (check (snd (check new_ManboRateLimiter ''global'' 1 0)) ''global'' 1 1000)) ''global''
       = requests (snd (check new_ManboRateLimiter ''global'' 1 0)) ''global''"
  by (simp add: check_def new_ManboRateLimiter_def windowSize_def)

text \<open>
  C2, amended: with a limit other than \<open>-1\<close> and 0, a call of \<open>check\<close> that returns true
  leaves an entry for its key that differs from what was stored before (none, or another
  entry); a call that returns false leaves the limiter unchanged.
\<close>

theorem C2_accepted_call_changes_entry:
  assumes "limit \<noteq> - 1" "limit \<noteq> 0"
  shows "(fst (check s k limit now) \<longrightarrow>
            requests (snd (check s k limit now)) k \<noteq> None
          \<and> requests (snd (check s k limit now)) k \<noteq> requests s k)
       \<and> (\<not> fst (check s k limit now) \<longrightarrow> snd (check s k limit now) = s)"
proof (cases "requests s k")
  case None
  then show ?thesis using assms by (simp add: check_fresh)
next
  case (Some e)
  show ?thesis
  proof (cases "now - windowStart e \<ge> windowSize")
    case True
    then have "windowStart e \<noteq> now" by (auto simp: windowSize_def)
    then have "\<lparr>count = 1, windowStart = now\<rparr> \<noteq> e" by auto
    then show ?thesis using assms Some True by (simp add: check_expired)
  next
    case False
    have "count (e\<lparr>count := count e + 1\<rparr>) \<noteq> count e" by simp
    then have "e\<lparr>count := count e + 1\<rparr> \<noteq> e" by metis
    then show ?thesis using assms Some False
      by (cases "count e < limit") (simp_all add: check_def)
  qed
qed

theorem C2_accepted_call_changes_entry_witness:
  "(2::int) \<noteq> - 1 \<and> (2::int) \<noteq> 0
   \<and> fst (check new_ManboRateLimiter ''global'' 2 0)
   \<and> requests (snd (check new_ManboRateLimiter ''global'' 2 0)) ''global'' \<noteq> None
   \<and> requests (snd (check new_ManboRateLimiter ''global'' 2 0)) ''global''
       \<noteq> requests new_ManboRateLimiter ''global''
   \<and> \<not> fst (check \<lparr>requests = [''global'' \<mapsto> \<lparr>count = 2, windowStart = 0\<rparr>]\<rparr> ''global'' 2 500)
   \<and> snd (check \<lparr>requests = [''global'' \<mapsto> \<lparr>count = 2, windowStart = 0\<rparr>]\<rparr> ''global'' 2 500)
       = \<lparr>requests = [''global'' \<mapsto> \<lparr>count = 2, windowStart = 0\<rparr>]\<rparr>"
  using C2_accepted_call_changes_entry [of 2 new_ManboRateLimiter "''global''" 0]
    C2_accepted_call_changes_entry
      [of 2 "\<lparr>requests = [''global'' \<mapsto> \<lparr>count = 2, windowStart = 0\<rparr>]\<rparr>" "''global''" 500]
  by (simp add: check_def new_ManboRateLimiter_def windowSize_def)

subsection \<open>A reading of the budget changes nothing\<close>

lemma getRemaining_state: "snd (getRemaining s k limit now) = s"
  by (simp add: getRemaining_def split: option.split)

lemma getRemaining_times_state: "snd (getRemaining_times s k limit ts) = s"
proof (induction ts)
  case Nil
  show ?case by simp
next
  case (Cons t ts)
  then show ?case by (simp add: case_prod_unfold Let_def getRemaining_state)
qed

lemma run_skips_getRemaining:
  "run s (filter (\<lambda>c. \<not> is_GetRemaining c) cs) = run s cs"
proof (induction cs arbitrary: s)
  case Nil
  show ?case by simp
next
  case (Cons c cs)
  then show ?case by (cases c) (simp_all add: getRemaining_state)
qed

text \<open>
  C4. \<open>getRemaining\<close> returns the limiter it was given, for every key, limit, clock reading
  and stored entry (expired or not). So does any number of readings in a row, a \<open>check\<close>
  after them returns what it returns without them and leaves the same limiter, and a
  sequence of calls of the four methods reaches the same limiter when its \<open>getRemaining\<close>
  calls are left out.
\<close>

theorem C4_getRemaining_read_only:
  "snd (getRemaining s k limit now) = s
   \<and> snd (getRemaining_times s k limit ts) = s
   \<and> check (snd (getRemaining_times s k limit ts)) k limit now' = check s k limit now'
   \<and> run s0 (filter (\<lambda>c. \<not> is_GetRemaining c) cs) = run s0 cs"
  by (simp add: getRemaining_state getRemaining_times_state run_skips_getRemaining)

subsection \<open>The two limits that bypass the map\<close>

lemma check_neg1: "check s k (- 1) now = (True, s)"
  by (simp add: check_def)

lemma check_zero: "check s k 0 now = (False, s)"
  by (simp add: check_def)

lemma check_times_neg1: "check_times s k (- 1) ts = (replicate (length ts) True, s)"
  by (induction ts) (simp_all add: check_neg1)

lemma check_times_zero: "check_times s k 0 ts = (replicate (length ts) False, s)"
  by (induction ts) (simp_all add: check_zero)

text \<open>
  C5. With limit \<open>-1\<close>, \<open>check\<close> returns true and the limiter it was given; any number of
  calls in a row all return true and leave the limiter as it was (no entry made or
  changed); \<open>getRemaining\<close> with limit \<open>-1\<close> reads \<open>-1\<close> before and after them.
\<close>

theorem C5_unlimited:
  "check s k (- 1) now = (True, s)
   \<and> check_times s k (- 1) ts = (replicate (length ts) True, s)
   \<and> fst (getRemaining s k (- 1) g) = - 1
   \<and> fst (getRemaining (snd (check_times s k (- 1) ts)) k (- 1) g') = - 1"
  by (simp add: check_neg1 check_times_neg1 getRemaining_def)

text \<open>
  C6. With limit 0, \<open>check\<close> returns false and the limiter it was given; any number of
  calls in a row all return false and leave the limiter as it was; \<open>getRemaining\<close> with
  limit 0 reads 0.
\<close>

theorem C6_disabled:
  "check s k 0 now = (False, s)
   \<and> check_times s k 0 ts = (replicate (length ts) False, s)
   \<and> fst (getRemaining s k 0 g) = 0
   \<and> fst (getRemaining (snd (check_times s k 0 ts)) k 0 g') = 0"
  by (simp add: check_zero check_times_zero getRemaining_def)

subsection \<open>Stored counts are at least 1\<close>

lemma counts_positive_new: "counts_positive new_ManboRateLimiter"
  by (simp add: counts_positive_def new_ManboRateLimiter_def)

lemma counts_positive_check:
  assumes "counts_positive s"
  shows "counts_positive (snd (check s k limit now))"
  unfolding counts_positive_def
proof (intro allI impI)
  fix k' e
  assume h: "requests (snd (check s k limit now)) k' = Some e"
  show "1 \<le> count e"
  proof (cases "k' = k")
    case False
    then have "requests (snd (check s k limit now)) k' = requests s k'"
      by (simp add: check_def split: option.split)
    then show ?thesis using h assms by (simp add: counts_positive_def)
  next
    case True
    show ?thesis
    proof (cases "requests s k")
      case None
      then show ?thesis using h True assms
        by (auto simp: check_def counts_positive_def split: if_splits)
    next
      case (Some e0)
      then have "1 \<le> count e0" using assms by (simp add: counts_positive_def)
      then show ?thesis using h True Some
        by (auto simp: check_def split: if_splits)
    qed
  qed
qed

lemma counts_positive_step: "counts_positive s \<Longrightarrow> counts_positive (call_step s c)"
proof (cases c)
  case (Check k l n)
  assume "counts_positive s"
  then show ?thesis using Check by (simp add: counts_positive_check)
next
  case (GetRemaining k l n)
  assume "counts_positive s"
  then show ?thesis using GetRemaining by (simp add: getRemaining_state)
next
  case (Reset k)
  assume "counts_positive s"
  then show ?thesis using Reset by (simp add: counts_positive_def reset_def)
next
  case Clear
  show ?thesis using Clear by (simp add: counts_positive_def clear_def)
qed

lemma counts_positive_run: "counts_positive s \<Longrightarrow> counts_positive (run s cs)"
  by (induction cs arbitrary: s) (simp_all add: counts_positive_step)

text \<open>
  C7. After any sequence of calls of \<open>check\<close>, \<open>getRemaining\<close>, \<open>reset\<close> and \<open>clear\<close>
  (any keys, limits and clock readings) on a new limiter, every stored entry has a count
  of at least 1.
\<close>

theorem C7_reachable_counts_positive:
  "requests (run new_ManboRateLimiter cs) k = Some e \<Longrightarrow> 1 \<le> count e"
  using counts_positive_run [OF counts_positive_new, of cs]
  by (simp add: counts_positive_def)

theorem C7_reachable_counts_positive_witness:
  "requests (run new_ManboRateLimiter
       [Check ''global'' 2 0, GetRemaining ''global'' 2 5, Check ''global'' 2 10,
        Check ''group:7'' (- 3) 20, Reset ''group:7'', Check ''global'' 2 30]) ''global''
     = Some \<lparr>count = 2, windowStart = 0\<rparr>
   \<and> (1::int) \<le> count \<lparr>count = 2, windowStart = 0\<rparr>"
  using C7_reachable_counts_positive
    [of "[Check ''global'' 2 0, GetRemaining ''global'' 2 5, Check ''global'' 2 10,
          Check ''group:7'' (- 3) 20, Reset ''group:7'', Check ''global'' 2 30]"
        "''global''" "\<lparr>count = 2, windowStart = 0\<rparr>"]
  by (simp add: new_ManboRateLimiter_def check_def getRemaining_def reset_def windowSize_def)

subsection \<open>Unfolding a sequence of checks\<close>

lemma fst_check_times_Cons:
  "fst (check_times s k limit (t # ts))
     = fst (check s k limit t) # fst (check_times (snd (check s k limit t)) k limit ts)"
  by (simp add: case_prod_unfold Let_def)

lemma snd_check_times_Cons:
  "snd (check_times s k limit (t # ts)) = snd (check_times (snd (check s k limit t)) k limit ts)"
  by (simp add: case_prod_unfold Let_def)

lemma check_times_Cons:
  "check_times s k limit (t # ts)
     = (fst (check s k limit t) # fst (check_times (snd (check s k limit t)) k limit ts),
        snd (check_times (snd (check s k limit t)) k limit ts))"
  by (simp add: case_prod_unfold Let_def)

subsection \<open>The window reset\<close>

text \<open>An accepted call leaves an entry whose window start is the old one or the clock reading.\<close>

lemma check_accepted_entry:
  assumes "limit \<noteq> - 1" "limit \<noteq> 0" "fst (check s k limit now)"
    and "\<forall>e. requests s k = Some e \<longrightarrow> windowStart e \<le> b" "now \<le> b"
  shows "\<exists>e'. requests (snd (check s k limit now)) k = Some e' \<and> windowStart e' \<le> b"
  using assms by (auto simp: check_def split: option.splits if_splits)

lemma getRemaining_after_reset:
  assumes "limit \<noteq> - 1" "limit \<noteq> 0" "g - now < 60000"
  shows "fst (getRemaining (s\<lparr>requests := (requests s)(k \<mapsto> \<lparr>count = 1, windowStart = now\<rparr>)\<rparr>) k limit g)
           = max 0 (limit - 1)"
  using assms by (simp add: getRemaining_def windowSize_def)

text \<open>
  C3. With a limit above 0, when the key has no entry or the clock reading is at least
  60000 ms after the stored window start, \<open>check\<close> returns true and stores the entry with
  count 1 and the reading as window start. In particular, with limit 2: when two calls at
  \<open>t1 \<le> t2\<close> are both accepted (the stored window start, if any, not being later than
  \<open>t1\<close>: the clock has not run backwards), a third call at \<open>t3\<close>, at least 60000 ms after
  \<open>t2\<close>, returns true, and \<open>getRemaining\<close> read after it within the new window returns 1.
\<close>

theorem C3_window_reset:
  assumes "0 < limit"
  shows "(requests s k = None \<or> (\<exists>e. requests s k = Some e \<and> 60000 \<le> now - windowStart e) \<longrightarrow>
            check s k limit now
              = (True, s\<lparr>requests := (requests s)(k \<mapsto> \<lparr>count = 1, windowStart = now\<rparr>)\<rparr>))
       \<and> ((\<forall>e. requests s k = Some e \<longrightarrow> windowStart e \<le> t1) \<and> t1 \<le> t2
            \<and> fst (check_times s k 2 [t1, t2]) = [True, True]
            \<and> 60000 \<le> t3 - t2 \<and> g - t3 < 60000 \<longrightarrow>
            fst (check (snd (check_times s k 2 [t1, t2])) k 2 t3) = True
          \<and> fst (getRemaining (snd (check (snd (check_times s k 2 [t1, t2])) k 2 t3)) k 2 g) = 1)"
proof (intro conjI impI)
  assume "requests s k = None \<or> (\<exists>e. requests s k = Some e \<and> 60000 \<le> now - windowStart e)"
  then show "check s k limit now
      = (True, s\<lparr>requests := (requests s)(k \<mapsto> \<lparr>count = 1, windowStart = now\<rparr>)\<rparr>)"
    using assms by (auto simp: check_fresh check_expired windowSize_def)
next
  assume h: "(\<forall>e. requests s k = Some e \<longrightarrow> windowStart e \<le> t1) \<and> t1 \<le> t2
            \<and> fst (check_times s k 2 [t1, t2]) = [True, True]
            \<and> 60000 \<le> t3 - t2 \<and> g - t3 < 60000"
  define s1 where "s1 = snd (check s k 2 t1)"
  define s2 where "s2 = snd (check s1 k 2 t2)"
  have st: "snd (check_times s k 2 [t1, t2]) = s2"
    by (simp add: s1_def s2_def snd_check_times_Cons del: check_times.simps(2))
  have a1: "fst (check s k 2 t1)" and a2: "fst (check s1 k 2 t2)"
    using h by (simp_all add: s1_def fst_check_times_Cons del: check_times.simps(2))
  have "\<forall>e. requests s k = Some e \<longrightarrow> windowStart e \<le> t2" using h by auto
  then have "\<exists>e'. requests s1 k = Some e' \<and> windowStart e' \<le> t2"
    unfolding s1_def using a1 h by (intro check_accepted_entry) simp_all
  then have "\<forall>e. requests s1 k = Some e \<longrightarrow> windowStart e \<le> t2" by auto
  then have "\<exists>e'. requests s2 k = Some e' \<and> windowStart e' \<le> t2"
    unfolding s2_def using a2 by (intro check_accepted_entry) simp_all
  then obtain e2 where e2: "requests s2 k = Some e2" "windowStart e2 \<le> t2" by blast
  then have "windowSize \<le> t3 - windowStart e2" using h by (simp add: windowSize_def)
  then have c3: "check s2 k 2 t3
      = (True, s2\<lparr>requests := (requests s2)(k \<mapsto> \<lparr>count = 1, windowStart = t3\<rparr>)\<rparr>)"
    using e2 by (simp add: check_expired)
  show "fst (check (snd (check_times s k 2 [t1, t2])) k 2 t3) = True"
    by (simp only: st c3 fst_conv)
  have "fst (getRemaining (s2\<lparr>requests := (requests s2)(k \<mapsto> \<lparr>count = 1, windowStart = t3\<rparr>)\<rparr>) k 2 g) = 1"
    using h getRemaining_after_reset [of 2 g t3 s2 k] by simp
  then show "fst (getRemaining (snd (check (snd (check_times s k 2 [t1, t2])) k 2 t3)) k 2 g) = 1"
    by (simp only: st c3 snd_conv)
qed

theorem C3_window_reset_witness:
  "(0::int) < 2 \<and> requests new_ManboRateLimiter ''group:42'' = None
   \<and> check new_ManboRateLimiter ''group:42'' 2 1000
       = (True, new_ManboRateLimiter\<lparr>requests :=
            (requests new_ManboRateLimiter)(''group:42'' \<mapsto> \<lparr>count = 1, windowStart = 1000\<rparr>)\<rparr>)
   \<and> fst (check_times new_ManboRateLimiter ''group:42'' 2 [1000, 2000]) = [True, True]
   \<and> fst (check (snd (check_times new_ManboRateLimiter ''group:42'' 2 [1000, 2000])) ''group:42'' 2 62000) = True
   \<and> fst (getRemaining (snd (check (snd (check_times new_ManboRateLimiter ''group:42'' 2 [1000, 2000]))
        ''group:42'' 2 62000)) ''group:42'' 2 62000) = 1"
  using C3_window_reset [of 2 new_ManboRateLimiter "''group:42''" 1000 1000 2000 62000 62000]
  by (simp add: new_ManboRateLimiter_def check_def windowSize_def)

subsection \<open>Keys do not interfere\<close>

lemma check_other_key:
  "k1 \<noteq> k2 \<Longrightarrow> requests (snd (check s k1 limit now)) k2 = requests s k2"
  by (simp add: check_def split: option.split)

lemma check_times_other_key:
  "k1 \<noteq> k2 \<Longrightarrow> requests (snd (check_times s k1 limit ts)) k2 = requests s k2"
proof (induction ts arbitrary: s)
  case Nil
  show ?case by simp
next
  case (Cons t ts)
  then show ?case by (simp add: snd_check_times_Cons check_other_key del: check_times.simps(2))
qed

text \<open>What \<open>check\<close> and \<open>getRemaining\<close> do for a key is decided by the entry of that key.\<close>

lemma check_reads_own_entry:
  "requests s k = requests s' k \<Longrightarrow>
   fst (check s k limit now) = fst (check s' k limit now)
   \<and> requests (snd (check s k limit now)) k = requests (snd (check s' k limit now)) k"
  by (simp add: check_def split: option.split)

lemma getRemaining_reads_own_entry:
  "requests s k = requests s' k \<Longrightarrow>
   fst (getRemaining s k limit now) = fst (getRemaining s' k limit now)"
  by (simp add: getRemaining_def split: option.split)

text \<open>
  C8. For two distinct keys, any sequence of \<open>check\<close> calls on the first (any limit, any
  clock readings) leaves the entry of the second as it was; a \<open>check\<close> on the second
  then returns, and stores for it, what it would have without those calls, and
  \<open>getRemaining\<close> on the second reads the same.
\<close>

theorem C8_keys_independent:
  assumes "k1 \<noteq> k2"
  shows "requests (snd (check_times s k1 limit ts)) k2 = requests s k2
       \<and> fst (check (snd (check_times s k1 limit ts)) k2 limit' now) = fst (check s k2 limit' now)
       \<and> requests (snd (check (snd (check_times s k1 limit ts)) k2 limit' now)) k2
           = requests (snd (check s k2 limit' now)) k2
       \<and> fst (getRemaining (snd (check_times s k1 limit ts)) k2 limit' now)
           = fst (getRemaining s k2 limit' now)"
  using check_times_other_key [OF assms, of s limit ts]
    check_reads_own_entry [of "snd (check_times s k1 limit ts)" k2 s limit' now]
    getRemaining_reads_own_entry [of "snd (check_times s k1 limit ts)" k2 s limit' now]
  by simp

theorem C8_keys_independent_witness:
  "''group:1'' \<noteq> ''group:2''
   \<and> fst (check_times new_ManboRateLimiter ''group:1'' 1 [0, 10, 20]) = [True, False, False]
   \<and> requests (snd (check_times new_ManboRateLimiter ''group:1'' 1 [0, 10, 20])) ''group:2'' = None
   \<and> fst (check (snd (check_times new_ManboRateLimiter ''group:1'' 1 [0, 10, 20])) ''group:2'' 1 30) = True
   \<and> fst (getRemaining (snd (check_times new_ManboRateLimiter ''group:1'' 1 [0, 10, 20])) ''group:2'' 1 30) = 1"
  using C8_keys_independent [of "''group:1''" "''group:2''" new_ManboRateLimiter 1 "[0, 10, 20]" 1 30]
  by (simp add: new_ManboRateLimiter_def check_def getRemaining_def windowSize_def)

subsection \<open>Limits below \<open>-1\<close>\<close>

lemma check_below_as_one:
  assumes "limit < - 1" "counts_positive s"
  shows "check s k limit now = check s k 1 now"
proof (cases "requests s k")
  case None
  then show ?thesis using assms by (simp add: check_def)
next
  case (Some e)
  then have "1 \<le> count e" using assms by (simp add: counts_positive_def)
  then show ?thesis using assms Some by (simp add: check_def)
qed

lemma check_times_below_as_one:
  assumes "limit < - 1"
  shows "counts_positive s \<Longrightarrow> check_times s k limit ts = check_times s k 1 ts"
proof (induction ts arbitrary: s)
  case Nil
  show ?case by simp
next
  case (Cons t ts)
  have eq: "check s k limit t = check s k 1 t"
    using assms Cons.prems by (rule check_below_as_one)
  have "counts_positive (snd (check s k 1 t))"
    using Cons.prems by (rule counts_positive_check)
  then have "check_times (snd (check s k 1 t)) k limit ts = check_times (snd (check s k 1 t)) k 1 ts"
    by (rule Cons.IH)
  then show ?case by (simp only: check_times_Cons eq)
qed

lemma check_times_closed_window:
  assumes "limit < - 1" "\<forall>t\<in>set ts. t - t0 < 60000"
    and "requests s k = Some \<lparr>count = 1, windowStart = t0\<rparr>"
  shows "check_times s k limit ts = (replicate (length ts) False, s)"
  using assms(2)
proof (induction ts)
  case Nil
  show ?case by simp
next
  case (Cons t ts)
  then have "t - t0 < 60000" by simp
  then have "check s k limit t = (False, s)"
    using assms(1,3) by (simp add: check_def windowSize_def)
  then show ?case using Cons by (simp add: check_times_Cons del: check_times.simps(2))
qed

text \<open>
  C9. Let the limit be below \<open>-1\<close> and the limiter be one that a sequence of calls on a
  new limiter has produced. Then every sequence of \<open>check\<close> calls on a key gives the
  results and the limiter that limit 1 gives. When the key has no entry or its entry has
  expired (the reading is at least 60000 ms after the window start), \<open>check\<close> returns true
  and stores count 1 with the reading as window start, every later call less than 60000
  ms after that reading returns false, and \<open>getRemaining\<close> reads the negative limit
  itself. When the entry is active, \<open>check\<close> returns false, changes nothing, and
  \<open>getRemaining\<close> reads 0.
\<close>

theorem C9_limit_below_minus_one:
  assumes "limit < - 1" and "s = run new_ManboRateLimiter cs"
  shows "check_times s k limit us = check_times s k 1 us
       \<and> (requests s k = None \<or> (\<exists>e. requests s k = Some e \<and> 60000 \<le> now - windowStart e) \<longrightarrow>
            check s k limit now
              = (True, s\<lparr>requests := (requests s)(k \<mapsto> \<lparr>count = 1, windowStart = now\<rparr>)\<rparr>)
          \<and> fst (getRemaining s k limit now) = limit
          \<and> ((\<forall>t\<in>set ts. t - now < 60000) \<longrightarrow>
               fst (check_times s k limit (now # ts)) = True # replicate (length ts) False))
       \<and> ((\<exists>e. requests s k = Some e \<and> now - windowStart e < 60000) \<longrightarrow>
            check s k limit now = (False, s) \<and> fst (getRemaining s k limit now) = 0)"
proof -
  have inv: "counts_positive s"
    using assms(2) counts_positive_run [OF counts_positive_new] by simp
  have A: "check_times s k limit us = check_times s k 1 us"
    using assms(1) inv by (rule check_times_below_as_one)
  have B: "check s k limit now
              = (True, s\<lparr>requests := (requests s)(k \<mapsto> \<lparr>count = 1, windowStart = now\<rparr>)\<rparr>)
          \<and> fst (getRemaining s k limit now) = limit
          \<and> ((\<forall>t\<in>set ts. t - now < 60000) \<longrightarrow>
               fst (check_times s k limit (now # ts)) = True # replicate (length ts) False)"
    if h: "requests s k = None \<or> (\<exists>e. requests s k = Some e \<and> 60000 \<le> now - windowStart e)"
  proof -
    let ?s' = "s\<lparr>requests := (requests s)(k \<mapsto> \<lparr>count = 1, windowStart = now\<rparr>)\<rparr>"
    have c: "check s k limit now = (True, ?s')"
      using h assms(1) by (auto simp: check_fresh check_expired windowSize_def)
    have g: "fst (getRemaining s k limit now) = limit"
      using h assms(1) by (auto simp: getRemaining_def windowSize_def)
    have "fst (check_times s k limit (now # ts)) = True # replicate (length ts) False"
      if w: "\<forall>t\<in>set ts. t - now < 60000"
    proof -
      have "check_times ?s' k limit ts = (replicate (length ts) False, ?s')"
        using assms(1) w by (rule check_times_closed_window) simp
      then show ?thesis by (simp add: fst_check_times_Cons c del: check_times.simps(2))
    qed
    then show ?thesis using c g by blast
  qed
  have C: "check s k limit now = (False, s) \<and> fst (getRemaining s k limit now) = 0"
    if h: "\<exists>e. requests s k = Some e \<and> now - windowStart e < 60000"
  proof -
    from h obtain e where e: "requests s k = Some e" "now - windowStart e < 60000" by blast
    then have "1 \<le> count e" using inv by (simp add: counts_positive_def)
    then show ?thesis using e assms(1)
      by (simp add: check_def getRemaining_def windowSize_def)
  qed
  show ?thesis using A B C by blast
qed

theorem C9_limit_below_minus_one_witness:
  "(- 5::int) < - 1
   \<and> requests (run new_ManboRateLimiter [Check ''global'' (- 5) 0]) ''global''
       = Some \<lparr>count = 1, windowStart = 0\<rparr>
   \<and> fst (check_times (run new_ManboRateLimiter [Check ''global'' (- 5) 0]) ''global'' (- 5) [100, 59999])
       = [False, False]
   \<and> fst (getRemaining (run new_ManboRateLimiter [Check ''global'' (- 5) 0]) ''global'' (- 5) 100) = 0
   \<and> fst (check_times (run new_ManboRateLimiter [Check ''global'' (- 5) 0]) ''global'' (- 5)
        [60000, 60001, 119999]) = [True, False, False]
   \<and> fst (getRemaining (run new_ManboRateLimiter [Check ''global'' (- 5) 0]) ''global'' (- 5) 60000) = - 5
   \<and> fst (getRemaining (run new_ManboRateLimiter [Check ''global'' (- 5) 0]) ''group:9'' (- 5) 100) = - 5"
  using C9_limit_below_minus_one
      [of "- 5" "run new_ManboRateLimiter [Check ''global'' (- 5) 0]" "[Check ''global'' (- 5) 0]"
        "''global''" "[100, 59999]" 60000 "[60001, 119999]"]
    C9_limit_below_minus_one
      [of "- 5" "run new_ManboRateLimiter [Check ''global'' (- 5) 0]" "[Check ''global'' (- 5) 0]"
        "''global''" "[]" 100 "[]"]
    C9_limit_below_minus_one
      [of "- 5" "run new_ManboRateLimiter [Check ''global'' (- 5) 0]" "[Check ''global'' (- 5) 0]"
        "''group:9''" "[]" 100 "[]"]
  by (simp add: new_ManboRateLimiter_def check_def windowSize_def)

subsection \<open>The key the exported functions use\<close>

text \<open>
  C10. The key is chosen by the truthiness of \<^verbatim>\<open>groupId\<close>: an undefined group number
  and the group number 0 both give \<open>''global''\<close>; a group number other than 0 gives
  \<open>''group:''\<close> followed by the number, which is never \<open>''global''\<close>.
  \<open>getRateLimitRemaining\<close>, \<open>resetRateLimit\<close> and \<open>generateManboVoice\<close> (once the address
  is configured) call \<open>getRemaining\<close>, \<open>reset\<close> and \<open>check\<close> with that key, so each of them
  does for group 0 what it does without a group.
\<close>

theorem C10_key_by_truthiness:
  "rateLimitKey None = ''global''
   \<and> rateLimitKey (Some 0) = ''global''
   \<and> (g \<noteq> 0 \<longrightarrow> rateLimitKey (Some g) = ''group:'' @ Number_toString g
                  \<and> rateLimitKey (Some g) \<noteq> ''global'')
   \<and> getRateLimitRemaining s cfg groupId now
       = getRemaining s (rateLimitKey groupId) (rateLimit_of cfg) now
   \<and> resetRateLimit s groupId = reset s (rateLimitKey groupId)
   \<and> (url \<noteq> [] \<longrightarrow>
        generateManboVoice_gate s (Some url) cfg groupId now
          = (if fst (check s (rateLimitKey groupId) (rateLimit_of cfg) now) then Fetch url else TooFrequent,
             snd (check s (rateLimitKey groupId) (rateLimit_of cfg) now)))
   \<and> getRateLimitRemaining s cfg (Some 0) now = getRateLimitRemaining s cfg None now
   \<and> resetRateLimit s (Some 0) = resetRateLimit s None
   \<and> generateManboVoice_gate s apiUrl cfg (Some 0) now = generateManboVoice_gate s apiUrl cfg None now"
proof -
  have z: "rateLimitKey (Some 0) = rateLimitKey None"
    by (simp add: rateLimitKey_def)
  have gate: "generateManboVoice_gate s apiUrl cfg (Some 0) now
      = generateManboVoice_gate s apiUrl cfg None now"
    unfolding generateManboVoice_gate_def z ..
  show ?thesis
    unfolding gate
    by (simp add: rateLimitKey_def getRateLimitRemaining_def resetRateLimit_def
        generateManboVoice_gate_def case_prod_unfold)
qed

theorem C10_key_by_truthiness_witness:
  "(123456::int) \<noteq> 0 \<and> rateLimitKey (Some 123456) = ''group:123456''
   \<and> ''http://x'' \<noteq> []
   \<and> generateManboVoice_gate new_ManboRateLimiter (Some ''http://x'') (Some 1) (Some 0) 0
      = (Fetch ''http://x'', \<lparr>requests = [''global'' \<mapsto> \<lparr>count = 1, windowStart = 0\<rparr>]\<rparr>)
   \<and> fst (generateManboVoice_gate
        (snd (generateManboVoice_gate new_ManboRateLimiter (Some ''http://x'') (Some 1) (Some 0) 0))
        (Some ''http://x'') (Some 1) None 10) = TooFrequent"
  using C10_key_by_truthiness [of 123456 new_ManboRateLimiter "Some 1" "Some 0" 0 "''http://x''" None]
  by (simp add: rateLimitKey_def Number_toString_def new_ManboRateLimiter_def check_def rateLimit_of_def
       generateManboVoice_gate_def windowSize_def)

end
